theory Spec2Isabelle
  imports Main
begin

section \<open>Strings\<close>

text \<open>
  File names, sheet names and column names are Python \<open>str\<close> values, sequences of
  Unicode code points. They are modelled as \<open>string\<close>, a list of 8-bit characters, and
  a character stands for the code point of its number: the model has the names over the
  code points 0 to 255, and a name with a code point above 255 is outside its type.
  \<open>str.lower\<close> and the regular expression classes \<open>\d\<close> and \<open>\s\<close> are those of
  Python on this range.
\<close>

text \<open>The code points below 256 with a lower-case form other than themselves: the
  letters A to Z, and the letters 192 to 222 but for the multiplication sign 215.\<close>

definition is_upper :: "char \<Rightarrow> bool" where
  "is_upper c =
     (let n = (of_char c :: nat)
      in (65 \<le> n \<and> n \<le> 90) \<or> (192 \<le> n \<and> n \<le> 222 \<and> n \<noteq> 215))"

text \<open>Each of them has its lower-case form 32 places above it, and bit 5 (value 32) of
  its code is clear.\<close>

definition lower_char :: "char \<Rightarrow> char" where
  "lower_char c =
     (if is_upper c
      then (case c of Char b0 b1 b2 b3 b4 b5 b6 b7 \<Rightarrow> Char b0 b1 b2 b3 b4 True b6 b7)
      else c)"

definition lower :: "string \<Rightarrow> string" where
  "lower s = map lower_char s"

text \<open>\<open>\d\<close> matches the decimal digits of Unicode (general category Nd); below 256
  these are the digits 0 to 9 and no other code point (the superscripts 178, 179 and 185
  are of category No).\<close>

definition is_digit :: "char \<Rightarrow> bool" where
  "is_digit c = (48 \<le> (of_char c :: nat) \<and> (of_char c :: nat) \<le> 57)"

text \<open>\<open>\s\<close> matches the white space of Unicode; below 256 this is tab, line feed,
  vertical tab, form feed and carriage return (9 to 13), the four separators 28 to 31,
  space (32), next line (133) and no-break space (160).\<close>

definition is_space :: "char \<Rightarrow> bool" where
  "is_space c =
     (let n = (of_char c :: nat)
      in (9 \<le> n \<and> n \<le> 13) \<or> (28 \<le> n \<and> n \<le> 32) \<or> n = 133 \<or> n = 160)"

fun startswith :: "string \<Rightarrow> string \<Rightarrow> bool" where
  "startswith s [] = True"
| "startswith [] (p # ps) = False"
| "startswith (c # cs) (p # ps) = (c = p \<and> startswith cs ps)"

text \<open>Python's \<open>sub in s\<close> on strings: \<open>sub\<close> occurs at some position of \<open>s\<close>.\<close>

definition endswith :: "string \<Rightarrow> string \<Rightarrow> bool" where
  "endswith s suffix = startswith (rev s) (rev suffix)"

fun contains :: "string \<Rightarrow> string \<Rightarrow> bool" where
  "contains [] sub = startswith [] sub"
| "contains (c # cs) sub = (startswith (c # cs) sub \<or> contains cs sub)"

section \<open>Errors\<close>

text \<open>
  The exceptions the program can raise, each with what its message reports.
  \<open>NoLibResSheet\<close> is the message \<open>No 'LibRes' sheet found in file. Sheets: ...\<close> with
  the workbook's sheet names, \<open>NoCompoundColumn\<close> is
  \<open>No compound column found. Available columns: ...\<close> with the frame's column names,
  \<open>ColumnNotFound\<close> is the library's message for a missing column, \<open>NotInIndex\<close> its
  message for a missing row label, \<open>InvalidLiteral\<close> that of \<open>int\<close> on a string
  that is not a number, and \<open>ExceedsDigitLimit\<close> that of \<open>int\<close> on a string of more
  digits than the interpreter converts, with the limit and the number of digits.
\<close>

datatype message =
    NoLibResSheet "string list"
  | NoCompoundColumn "string list"
  | ColumnNotFound string
  | NotInIndex
  | InvalidLiteral string
  | ExceedsDigitLimit nat nat

text \<open>\<open>ReaderError\<close> stands for an exception raised inside the spreadsheet library when
  it opens a workbook or parses a sheet, with the library's own message.\<close>

datatype error = ValueError message | KeyError message | ReaderError string

section \<open>The filename metadata parser\<close>

record metadata =
  group :: "string option"
  timepoint :: "string option"
  adsorbent :: "string option"
  sample :: "int option"
  source_file :: string

text \<open>
  \<open>re.search(r"(\d+)\s*h", name)\<close>. \<open>match_time\<close> is the attempt at one start
  position and returns group 1. Both \<open>\d+\<close> and \<open>\s*\<close> are greedy; giving back a
  digit leaves a digit where white space or \<open>h\<close> is needed, and giving back white space
  leaves white space where \<open>h\<close> is needed, so the greedy attempt is the only one that can
  succeed. \<open>search_time\<close> tries the start positions from left to right.
\<close>

definition match_time :: "string \<Rightarrow> string option" where
  "match_time s =
     (let ds = takeWhile is_digit s;
          rest = dropWhile is_space (dropWhile is_digit s)
      in if ds \<noteq> [] \<and> startswith rest ''h'' then Some ds else None)"

fun search_time :: "string \<Rightarrow> string option" where
  "search_time [] = match_time []"
| "search_time (c # cs) =
     (case match_time (c # cs) of Some ds \<Rightarrow> Some ds | None \<Rightarrow> search_time cs)"

text \<open>
  \<open>re.search(r"-(char|dvb)-(\d+)", name)\<close>, returning group 2. \<open>match_digits\<close> is
  the tail \<open>-(\d+)\<close> after the adsorbent token, \<open>match_token\<close> one alternative of the
  group followed by that tail; the alternatives are tried in the order written.
\<close>

definition match_digits :: "string \<Rightarrow> string option" where
  "match_digits s =
     (case s of
        [] \<Rightarrow> None
      | c # cs \<Rightarrow>
          if c = CHR ''-'' \<and> takeWhile is_digit cs \<noteq> [] then Some (takeWhile is_digit cs)
          else None)"

definition match_token :: "string \<Rightarrow> string \<Rightarrow> string option" where
  "match_token tok s = (if startswith s tok then match_digits (drop (length tok) s) else None)"

definition match_sample :: "string \<Rightarrow> string option" where
  "match_sample s =
     (case s of
        [] \<Rightarrow> None
      | c # cs \<Rightarrow>
          if c = CHR ''-''
          then (case match_token ''char'' cs of
                  Some ds \<Rightarrow> Some ds
                | None \<Rightarrow> match_token ''dvb'' cs)
          else None)"

fun search_sample :: "string \<Rightarrow> string option" where
  "search_sample [] = match_sample []"
| "search_sample (c # cs) =
     (case match_sample (c # cs) of Some ds \<Rightarrow> Some ds | None \<Rightarrow> search_sample cs)"

text \<open>
  \<open>int(s)\<close> on a string of decimal digits. On any other string the model raises
  \<open>ValueError\<close>, as Python does on a string that is not a number (signs, white space
  and underscores, which Python accepts, never reach it from \<open>\d+\<close>). Python's integers
  are unbounded, but the interpreter refuses to convert a string of more digits than
  \<open>sys.get_int_max_str_digits()\<close>, which is 4300 unless the interpreter is configured
  otherwise (CPython 3.11 and later, and the security releases of 3.7 to 3.10): \<open>int\<close>
  then raises \<open>ValueError\<close>. Every digit of the string counts, leading zeros too.
\<close>

definition int_max_str_digits :: nat where
  "int_max_str_digits = 4300"

definition digit_val :: "char \<Rightarrow> int" where
  "digit_val c = int (of_char c) - 48"

definition py_int :: "string \<Rightarrow> error + int" where
  "py_int s =
     (if s = [] \<or> \<not> list_all is_digit s then Inl (ValueError (InvalidLiteral s))
      else if int_max_str_digits < length s
      then Inl (ValueError (ExceedsDigitLimit int_max_str_digits (length s)))
      else Inr (foldl (\<lambda>a c. 10 * a + digit_val c) 0 s))"

definition extract_metadata_from_filename :: "string \<Rightarrow> error + metadata" where
  "extract_metadata_from_filename filename =
     (let name = lower filename;
          timepoint = (case search_time name of Some ds \<Rightarrow> Some (ds @ ''h'') | None \<Rightarrow> None);
          adsorbent = (if contains name ''char'' then Some ''char''
                       else if contains name ''dvb'' then Some ''dvb''
                       else None);
          group = (if contains name ''healthy'' \<and> \<not> contains name ''infested''
                   then (if contains name ''masa'' then Some ''healthy+masa'' else Some ''healthy'')
                   else if contains name ''infested''
                   then (if contains name ''masa'' then Some ''infested+masa'' else Some ''infested'')
                   else None)
      in case search_sample name of
           None \<Rightarrow>
             Inr \<lparr>group = group, timepoint = timepoint, adsorbent = adsorbent,
                  sample = None, source_file = filename\<rparr>
         | Some ds \<Rightarrow>
             (case py_int ds of
                Inl e \<Rightarrow> Inl e
              | Inr n \<Rightarrow>
                  Inr \<lparr>group = group, timepoint = timepoint, adsorbent = adsorbent,
                       sample = Some n, source_file = filename\<rparr>))"

section \<open>Data frames\<close>

text \<open>
  A pandas \<open>DataFrame\<close>: the column names in declared order and the rows in table
  order, each row with its index label and one cell per column. A cell is \<open>None\<close> when
  it is null (NaN) and \<open>Some v\<close> otherwise; the values of a sheet are of one linearly
  ordered type. The frames the sheet reader produces have distinct column names, rows
  as long as the column list, and the labels \<open>0, 1, 2, ...\<close>.
\<close>

record 'a dataframe =
  columns :: "string list"
  rows :: "(nat \<times> 'a option list) list"

definition index :: "'a dataframe \<Rightarrow> nat list" where
  "index df = map fst (rows df)"

fun col_index :: "string \<Rightarrow> string list \<Rightarrow> nat option" where
  "col_index name [] = None"
| "col_index name (c # cs) =
     (if c = name then Some 0 else map_option Suc (col_index name cs))"

text \<open>The cell of a row in column \<open>i\<close>; a row too short for the column reads as null.\<close>

definition cell_at :: "'a option list \<Rightarrow> nat \<Rightarrow> 'a option" where
  "cell_at r i = (if i < length r then r ! i else None)"

text \<open>\<open>df[name]\<close>: the cells of one column, in row order.\<close>

definition getitem :: "string \<Rightarrow> 'a dataframe \<Rightarrow> error + 'a option list" where
  "getitem name df =
     (case col_index name (columns df) of
        None \<Rightarrow> Inl (KeyError (ColumnNotFound name))
      | Some i \<Rightarrow> Inr (map (\<lambda>r. cell_at (snd r) i) (rows df)))"

text \<open>\<open>df[name] = series\<close>, the series aligned with the frame's rows: an existing
  column is overwritten in place, a new one is appended as the last column.\<close>

definition setitem :: "string \<Rightarrow> 'a option list \<Rightarrow> 'a dataframe \<Rightarrow> 'a dataframe" where
  "setitem name vals df =
     (case col_index name (columns df) of
        Some i \<Rightarrow> df\<lparr>rows := map (\<lambda>(r, v). (fst r, (snd r)[i := v])) (zip (rows df) vals)\<rparr>
      | None \<Rightarrow>
          df\<lparr>columns := columns df @ [name],
             rows := map (\<lambda>(r, v). (fst r, snd r @ [v])) (zip (rows df) vals)\<rparr>)"

text \<open>\<open>df.dropna(how="all")\<close>: a row goes when every cell of it is null.\<close>

definition dropna_all :: "'a dataframe \<Rightarrow> 'a dataframe" where
  "dropna_all df = df\<lparr>rows := filter (\<lambda>r. \<not> list_all (\<lambda>c. c = None) (snd r)) (rows df)\<rparr>"

text \<open>\<open>df.dropna(subset=[name])\<close>: a row goes when its cell in that column is null.\<close>

definition dropna_subset :: "string \<Rightarrow> 'a dataframe \<Rightarrow> error + 'a dataframe" where
  "dropna_subset name df =
     (case col_index name (columns df) of
        None \<Rightarrow> Inl (KeyError (ColumnNotFound name))
      | Some i \<Rightarrow> Inr (df\<lparr>rows := filter (\<lambda>r. cell_at (snd r) i \<noteq> None) (rows df)\<rparr>))"

text \<open>\<open>series.ffill()\<close>: a null takes the nearest non-null value above it; nulls above
  the first value stay null.\<close>

fun ffill_from :: "'a option \<Rightarrow> 'a option list \<Rightarrow> 'a option list" where
  "ffill_from prev [] = []"
| "ffill_from prev (None # xs) = prev # ffill_from prev xs"
| "ffill_from prev (Some v # xs) = Some v # ffill_from (Some v) xs"

definition ffill :: "'a option list \<Rightarrow> 'a option list" where
  "ffill xs = ffill_from None xs"

text \<open>
  \<open>idxmax\<close> of one group: the label of the first row holding the greatest non-null
  value; nulls are skipped, and a group with no value at all gives null. The scan keeps
  the best row so far and replaces it only by a strictly greater value.
\<close>

fun idxmax_from :: "(nat \<times> 'a::linorder) option \<Rightarrow> (nat \<times> 'a option) list \<Rightarrow> (nat \<times> 'a) option" where
  "idxmax_from best [] = best"
| "idxmax_from best ((l, None) # xs) = idxmax_from best xs"
| "idxmax_from None ((l, Some q) # xs) = idxmax_from (Some (l, q)) xs"
| "idxmax_from (Some (bl, bq)) ((l, Some q) # xs) =
     idxmax_from (if bq < q then Some (l, q) else Some (bl, bq)) xs"

definition idxmax :: "(nat \<times> 'a::linorder option) list \<Rightarrow> nat option" where
  "idxmax xs = map_option fst (idxmax_from None xs)"

text \<open>
  \<open>df.groupby(key)[col].idxmax()\<close>: the groups are the distinct non-null values of
  column \<open>key\<close> in ascending order, and each group's rows keep the table's order.
\<close>

definition group_keys :: "nat \<Rightarrow> 'a::linorder dataframe \<Rightarrow> 'a list" where
  "group_keys b df = sort (remdups (List.map_filter (\<lambda>r. cell_at (snd r) b) (rows df)))"

definition group_rows :: "nat \<Rightarrow> 'a \<Rightarrow> 'a dataframe \<Rightarrow> (nat \<times> 'a option list) list" where
  "group_rows b k df = filter (\<lambda>r. cell_at (snd r) b = Some k) (rows df)"

definition groupby_idxmax :: "string \<Rightarrow> string \<Rightarrow> 'a::linorder dataframe \<Rightarrow> error + nat option list" where
  "groupby_idxmax key col df =
     (case col_index key (columns df) of
        None \<Rightarrow> Inl (KeyError (ColumnNotFound key))
      | Some b \<Rightarrow>
          (case col_index col (columns df) of
             None \<Rightarrow> Inl (KeyError (ColumnNotFound col))
           | Some q \<Rightarrow>
               Inr (map (\<lambda>k. idxmax (map (\<lambda>r. (fst r, cell_at (snd r) q)) (group_rows b k df)))
                      (group_keys b df))))"

text \<open>
  \<open>df.loc[labels]\<close>: for each label in turn, the rows carrying it. A null label, or
  one no row carries, raises \<open>KeyError\<close>.
\<close>

fun loc_rows :: "(nat \<times> 'a option list) list \<Rightarrow> nat option list \<Rightarrow> error + (nat \<times> 'a option list) list" where
  "loc_rows rs [] = Inr []"
| "loc_rows rs (None # ls) = Inl (KeyError NotInIndex)"
| "loc_rows rs (Some l # ls) =
     (case filter (\<lambda>r. fst r = l) rs of
        [] \<Rightarrow> Inl (KeyError NotInIndex)
      | hit # hits \<Rightarrow>
          (case loc_rows rs ls of
             Inl e \<Rightarrow> Inl e
           | Inr rest \<Rightarrow> Inr ((hit # hits) @ rest)))"

definition loc :: "'a dataframe \<Rightarrow> nat option list \<Rightarrow> error + 'a dataframe" where
  "loc df labels =
     (case loc_rows (rows df) labels of
        Inl e \<Rightarrow> Inl e
      | Inr rs \<Rightarrow> Inr (df\<lparr>rows := rs\<rparr>))"

text \<open>\<open>df.sort_values(name)\<close>: ascending by the cell in that column, nulls last.\<close>

definition sort_values :: "string \<Rightarrow> 'a::linorder dataframe \<Rightarrow> error + 'a dataframe" where
  "sort_values name df =
     (case col_index name (columns df) of
        None \<Rightarrow> Inl (KeyError (ColumnNotFound name))
      | Some i \<Rightarrow>
          Inr (df\<lparr>rows :=
                 sort_key (\<lambda>r. the (cell_at (snd r) i))
                   (filter (\<lambda>r. cell_at (snd r) i \<noteq> None) (rows df))
                 @ filter (\<lambda>r. cell_at (snd r) i = None) (rows df)\<rparr>))"

text \<open>\<open>df.reset_index(drop=True)\<close>: the rows are relabelled \<open>0, 1, 2, ...\<close>.\<close>

definition reset_index :: "'a dataframe \<Rightarrow> 'a dataframe" where
  "reset_index df = df\<lparr>rows := zip [0 ..< length (rows df)] (map snd (rows df))\<rparr>"

section \<open>The top-hit reducer\<close>

text \<open>
  \<open>forward_filled\<close> is the frame after the lines that drop the empty rows, add the
  column \<open>compound_id\<close> and drop the rows in which it is still null; \<open>select_top\<close> is
  the two lines that choose the row of greatest quality of each compound and order the
  result; \<open>top_hits_of\<close> is the body of \<open>extract_top_hits\<close> below the choice of the
  compound column.
\<close>

definition forward_filled :: "string \<Rightarrow> 'a dataframe \<Rightarrow> error + 'a dataframe" where
  "forward_filled col_compound df_raw =
     (let df = dropna_all df_raw in
      case getitem col_compound df of
        Inl e \<Rightarrow> Inl e
      | Inr s \<Rightarrow> dropna_subset ''compound_id'' (setitem ''compound_id'' (ffill s) df))"

definition select_top :: "'a::linorder dataframe \<Rightarrow> error + 'a dataframe" where
  "select_top df =
     (case groupby_idxmax ''compound_id'' ''Quality'' df of
        Inl e \<Rightarrow> Inl e
      | Inr idx \<Rightarrow>
          (case loc df idx of
             Inl e \<Rightarrow> Inl e
           | Inr hits \<Rightarrow>
               (case sort_values ''compound_id'' hits of
                  Inl e \<Rightarrow> Inl e
                | Inr sorted_hits \<Rightarrow> Inr (reset_index sorted_hits))))"

definition top_hits_of :: "string \<Rightarrow> 'a::linorder dataframe \<Rightarrow> error + 'a dataframe" where
  "top_hits_of col_compound df_raw =
     (case forward_filled col_compound df_raw of
        Inl e \<Rightarrow> Inl e
      | Inr df \<Rightarrow> select_top df)"

definition compound_candidates :: "'a dataframe \<Rightarrow> string list" where
  "compound_candidates df = filter (\<lambda>c. contains (lower c) ''compound'') (columns df)"

definition extract_top_hits :: "'a::linorder dataframe \<Rightarrow> error + 'a dataframe" where
  "extract_top_hits df_raw =
     (case compound_candidates df_raw of
        [] \<Rightarrow> Inl (KeyError (NoCompoundColumn (columns df_raw)))
      | col_compound # _ \<Rightarrow> top_hits_of col_compound df_raw)"

section \<open>The sheet extractor\<close>

text \<open>
  The spreadsheet library is a parameter of the model: \<open>ExcelFile\<close> opens a workbook
  source with the chosen engine, \<open>sheet_names\<close> enumerates the sheets of an open
  workbook in the reader's order, and \<open>read_excel\<close> parses the sheet of a given name
  with a given header row. The two that can fail return the library's message.
\<close>

record ('f, 'w, 'a) pandas =
  ExcelFile :: "'f \<Rightarrow> string option \<Rightarrow> string + 'w"
  sheet_names :: "'w \<Rightarrow> string list"
  read_excel :: "'w \<Rightarrow> string \<Rightarrow> nat \<Rightarrow> string + 'a dataframe"

text \<open>The loop over the sheet names, left at the first match by \<open>break\<close>.\<close>

fun find_libres :: "string list \<Rightarrow> string option" where
  "find_libres [] = None"
| "find_libres (s # ss) = (if lower s = ''libres'' then Some s else find_libres ss)"

definition load_libres_sheet :: "('f, 'w, 'a) pandas \<Rightarrow> 'f \<Rightarrow> string \<Rightarrow> error + 'a dataframe" where
  "load_libres_sheet pd file_obj filename =
     (let fname = lower filename;
          engine = (if endswith fname ''.xls'' then Some ''xlrd'' else None)
      in case ExcelFile pd file_obj engine of
           Inl m \<Rightarrow> Inl (ReaderError m)
         | Inr xls \<Rightarrow>
             (case find_libres (sheet_names pd xls) of
                None \<Rightarrow> Inl (ValueError (NoLibResSheet (sheet_names pd xls)))
              | Some libres_name \<Rightarrow>
                  (case read_excel pd xls libres_name 8 of
                     Inl m \<Rightarrow> Inl (ReaderError m)
                   | Inr df_raw \<Rightarrow> Inr df_raw)))"

section \<open>The column normalizer and the file cleaner\<close>








section \<open>Vocabulary of the properties\<close>

text \<open>A quality cell that is null or at most \<open>m\<close>, and one that is null or below
  \<open>m\<close>.\<close>

definition qual_le :: "'a::linorder option \<Rightarrow> 'a \<Rightarrow> bool" where
  "qual_le c m = (case c of None \<Rightarrow> True | Some v \<Rightarrow> v \<le> m)"

definition qual_less :: "'a::linorder option \<Rightarrow> 'a \<Rightarrow> bool" where
  "qual_less c m = (case c of None \<Rightarrow> True | Some v \<Rightarrow> v < m)"

text \<open>
  The non-null qualities of a list of rows (\<open>q\<close> is the position of the quality
  column), and the first row of the list, in its order, whose quality is the greatest of
  them: the row of lowest index among the maxima. A list with no quality at all has no
  such row.
\<close>

definition quality_values :: "nat \<Rightarrow> (nat \<times> 'a option list) list \<Rightarrow> 'a list" where
  "quality_values q g = List.map_filter (\<lambda>r. cell_at (snd r) q) g"

definition first_maximum :: "nat \<Rightarrow> (nat \<times> 'a::linorder option list) list \<Rightarrow> (nat \<times> 'a option list) option" where
  "first_maximum q g =
     find (\<lambda>r. cell_at (snd r) q = Some (Max (set (quality_values q g)))) g"

text \<open>
  The frames the sheet reader returns: no column name and no row label occurs twice, and
  every row has one cell for each column.
\<close>

definition well_formed :: "'a dataframe \<Rightarrow> bool" where
  "well_formed df =
     (distinct (columns df) \<and> distinct (index df)
      \<and> list_all (\<lambda>r. length (snd r) = length (columns df)) (rows df))"

text \<open>
  The compound-identifier column of a sheet, read in the rows that are not entirely
  empty and forward-filled; its distinct non-null values are the compounds of the sheet.
\<close>

definition filled_compound_ids :: "'a dataframe \<Rightarrow> 'a option list" where
  "filled_compound_ids df =
     (case compound_candidates df of
        [] \<Rightarrow> []
      | col_compound # _ \<Rightarrow>
          (case getitem col_compound (dropna_all df) of
             Inl e \<Rightarrow> []
           | Inr s \<Rightarrow> ffill s))"

text \<open>
  Two sheets to run the reducer on. In \<open>tie_sheet\<close> compound 7 has three candidate
  rows, two of them with the greatest quality 95, and stands above compound 3. In
  \<open>gap_sheet\<close> a row precedes the first compound, one row is entirely empty and
  compound 4 comes back after compound 2.
\<close>

definition tie_sheet :: "int dataframe" where
  "tie_sheet =
     \<lparr>columns = [''Compound'', ''Quality''],
      rows = [(0, [Some 7, Some 90]), (1, [None, Some 95]), (2, [None, Some 95]),
              (3, [Some 3, Some 60])]\<rparr>"

definition gap_sheet :: "int dataframe" where
  "gap_sheet =
     \<lparr>columns = [''Compound number (#)'', ''Hit Name'', ''Quality''],
      rows = [(0, [None, None, Some 10]), (1, [Some 4, None, Some 50]),
              (2, [None, None, None]), (3, [None, Some 12, Some 70]),
              (4, [Some 2, None, Some 30]), (5, [Some 4, Some 5, Some 20])]\<rparr>"

text \<open>A sheet with two columns whose names contain \<open>compound\<close>, and one with none.\<close>

definition two_candidates :: "int dataframe" where
  "two_candidates =
     \<lparr>columns = [''RT (min)'', ''COMPOUND number (#)'', ''Quality'', ''Compound''],
      rows = [(0, [Some 5, Some 1, Some 80, Some 9]), (1, [Some 6, None, Some 95, Some 8])]\<rparr>"

definition no_candidate :: "int dataframe" where
  "no_candidate =
     \<lparr>columns = [''RT (min)'', ''Quality''], rows = [(0, [Some 5, Some 80])]\<rparr>"

text \<open>
  A spreadsheet library over workbooks held in memory: a workbook is its list of named,
  already parsed sheets, opening it cannot fail, and reading a sheet looks its name up.
\<close>

definition memory_pandas :: "((string \<times> int dataframe) list, (string \<times> int dataframe) list, int) pandas" where
  "memory_pandas =
     \<lparr>ExcelFile = (\<lambda>file_obj engine. Inr file_obj),
      sheet_names = map fst,
      read_excel = (\<lambda>xls name header.
         case map_of xls name of None \<Rightarrow> Inl ''Worksheet not found'' | Some df \<Rightarrow> Inr df)\<rparr>"





text \<open>
  A library over workbooks in memory whose reader can refuse a sheet: a sheet is either
  its parsed frame or the message the reader raises on it, as it does on a sheet with
  fewer rows than the header row asked for.
\<close>

definition checking_pandas :: "((string \<times> (string + int dataframe)) list, (string \<times> (string + int dataframe)) list, int) pandas" where
  "checking_pandas =
     \<lparr>ExcelFile = (\<lambda>file_obj engine. Inr file_obj),
      sheet_names = map fst,
      read_excel = (\<lambda>xls name header.
         case map_of xls name of None \<Rightarrow> Inl ''Worksheet not found'' | Some sheet \<Rightarrow> sheet)\<rparr>"

section \<open>Evaluation rules\<close>

lemmas parser_defs = extract_metadata_from_filename_def lower_def lower_char_def is_upper_def
  is_digit_def is_space_def match_time_def match_sample_def match_token_def match_digits_def
  py_int_def int_max_str_digits_def digit_val_def Let_def

lemmas frame_defs = extract_top_hits_def compound_candidates_def top_hits_of_def select_top_def
  forward_filled_def dropna_all_def dropna_subset_def getitem_def setitem_def ffill_def
  groupby_idxmax_def group_keys_def group_rows_def idxmax_def loc_def sort_values_def
  reset_index_def cell_at_def lower_def lower_char_def is_upper_def List.map_filter_def Let_def

section \<open>The reducer on the example sheet\<close>

text \<open>
  C1. On the sheet with the rows (compound 1, quality 80), (compound null, quality 95),
  (compound 2, quality 60) the reducer returns exactly two rows: the row of quality 95,
  whose forward-filled compound identifier is 1, and the row of compound 2 with quality
  60.
\<close>

theorem top_hits_example:
  "extract_top_hits
     \<lparr>columns = [''Compound'', ''Quality''],
      rows = [(0, [Some (1::int), Some 80]), (1, [None, Some 95]), (2, [Some 2, Some 60])]\<rparr>
   = Inr \<lparr>columns = [''Compound'', ''Quality'', ''compound_id''],
          rows = [(0, [None, Some 95, Some 1]), (1, [Some 2, Some 60, Some 2])]\<rparr>"
  by (simp add: frame_defs upt_rec)

section \<open>The parser on the example file names\<close>

text \<open>
  C2, as the specification states it, fails: on \<open>Healthy_24h_char-1.xlsx\<close> the parser
  does not return sample 1.
\<close>

theorem metadata_examples_counterexample:
  "extract_metadata_from_filename ''Healthy_24h_char-1.xlsx'' \<noteq>
     Inr \<lparr>group = Some ''healthy'', timepoint = Some ''24h'', adsorbent = Some ''char'',
          sample = Some 1, source_file = ''Healthy_24h_char-1.xlsx''\<rparr>"
  by (simp add: parser_defs)

text \<open>
  C2, amended. On \<open>Healthy_24h_char-1.xlsx\<close> and \<open>Infested_MASA_72h_dvb-3.xls\<close> the
  parser returns the group, time point and adsorbent of the examples and a null sample:
  the sample pattern needs a hyphen before the adsorbent token, and both names have an
  underscore there. On the same names with that hyphen the samples are 1 and 3.
\<close>

theorem metadata_examples:
  "extract_metadata_from_filename ''Healthy_24h_char-1.xlsx'' =
     Inr \<lparr>group = Some ''healthy'', timepoint = Some ''24h'', adsorbent = Some ''char'',
          sample = None, source_file = ''Healthy_24h_char-1.xlsx''\<rparr>
   \<and> extract_metadata_from_filename ''Infested_MASA_72h_dvb-3.xls'' =
     Inr \<lparr>group = Some ''infested+masa'', timepoint = Some ''72h'', adsorbent = Some ''dvb'',
          sample = None, source_file = ''Infested_MASA_72h_dvb-3.xls''\<rparr>
   \<and> extract_metadata_from_filename ''Healthy_24h-char-1.xlsx'' =
     Inr \<lparr>group = Some ''healthy'', timepoint = Some ''24h'', adsorbent = Some ''char'',
          sample = Some 1, source_file = ''Healthy_24h-char-1.xlsx''\<rparr>
   \<and> extract_metadata_from_filename ''Infested_MASA_72h-dvb-3.xls'' =
     Inr \<lparr>group = Some ''infested+masa'', timepoint = Some ''72h'', adsorbent = Some ''dvb'',
          sample = Some 3, source_file = ''Infested_MASA_72h-dvb-3.xls''\<rparr>"
  by (simp add: parser_defs)

section \<open>Forward-fill\<close>

lemma ffill_from_idem: "ffill_from p (ffill_from p xs) = ffill_from p xs"
proof (induction xs arbitrary: p)
  case Nil
  show ?case by simp
next
  case (Cons x xs)
  show ?case
  proof (cases x)
    case None
    then show ?thesis using Cons.IH [of p] by (cases p) simp_all
  next
    case (Some v)
    then show ?thesis using Cons.IH [of "Some v"] by simp
  qed
qed

text \<open>
  C7. Forward-fill is idempotent: on every column of optional values, filling twice gives
  what filling once gives.
\<close>

theorem ffill_idempotent: "ffill (ffill xs) = ffill xs"
  by (simp add: ffill_def ffill_from_idem)

section \<open>The first row of greatest quality\<close>

lemma idxmax_from_Some_not_None: "idxmax_from (Some b) xs \<noteq> None"
  by (induction "Some b" xs arbitrary: b rule: idxmax_from.induct) auto

lemma idxmax_from_Some:
  "idxmax_from (Some (bl, bq)) xs = Some (l, m) \<Longrightarrow>
     ((l, m) = (bl, bq) \<and> (\<forall>x\<in>set xs. qual_le (snd x) bq))
     \<or> (bq < m \<and> (\<exists>pre post. xs = pre @ (l, Some m) # post
            \<and> (\<forall>x\<in>set pre. qual_less (snd x) m) \<and> (\<forall>x\<in>set post. qual_le (snd x) m)))"
proof (induction xs arbitrary: bl bq)
  case Nil
  then show ?case by simp
next
  case (Cons x xs)
  obtain xl xq where x: "x = (xl, xq)" by (cases x)
  show ?case
  proof (cases xq)
    case None
    with Cons.prems x have "idxmax_from (Some (bl, bq)) xs = Some (l, m)" by simp
    from Cons.IH [OF this] show ?thesis
    proof
      assume "(l, m) = (bl, bq) \<and> (\<forall>x\<in>set xs. qual_le (snd x) bq)"
      then show ?thesis using x None by (simp add: qual_le_def)
    next
      assume "bq < m \<and> (\<exists>pre post. xs = pre @ (l, Some m) # post
            \<and> (\<forall>x\<in>set pre. qual_less (snd x) m) \<and> (\<forall>x\<in>set post. qual_le (snd x) m))"
      then obtain pre post where lt: "bq < m" and d: "xs = pre @ (l, Some m) # post"
        and p: "\<forall>x\<in>set pre. qual_less (snd x) m" and q: "\<forall>x\<in>set post. qual_le (snd x) m"
        by blast
      have "x # xs = (x # pre) @ (l, Some m) # post" using d by simp
      moreover have "\<forall>y\<in>set (x # pre). qual_less (snd y) m"
        using p x None by (simp add: qual_less_def)
      ultimately show ?thesis using lt q by blast
    qed
  next
    case (Some v)
    show ?thesis
    proof (cases "bq < v")
      case True
      with Cons.prems x Some have "idxmax_from (Some (xl, v)) xs = Some (l, m)" by simp
      from Cons.IH [OF this] show ?thesis
      proof
        assume a: "(l, m) = (xl, v) \<and> (\<forall>x\<in>set xs. qual_le (snd x) v)"
        then have "x # xs = [] @ (l, Some m) # xs" using x Some by simp
        moreover have "\<forall>y\<in>set xs. qual_le (snd y) m" using a by simp
        moreover have "bq < m" using a True by simp
        ultimately show ?thesis by (metis empty_iff list.set(1))
      next
        assume "v < m \<and> (\<exists>pre post. xs = pre @ (l, Some m) # post
            \<and> (\<forall>x\<in>set pre. qual_less (snd x) m) \<and> (\<forall>x\<in>set post. qual_le (snd x) m))"
        then obtain pre post where lt: "v < m" and d: "xs = pre @ (l, Some m) # post"
          and p: "\<forall>x\<in>set pre. qual_less (snd x) m" and q: "\<forall>x\<in>set post. qual_le (snd x) m"
          by blast
        have "x # xs = (x # pre) @ (l, Some m) # post" using d by simp
        moreover have "\<forall>y\<in>set (x # pre). qual_less (snd y) m"
          using p x Some lt by (simp add: qual_less_def)
        moreover have "bq < m" using True lt by simp
        ultimately show ?thesis using q by blast
      qed
    next
      case False
      with Cons.prems x Some have "idxmax_from (Some (bl, bq)) xs = Some (l, m)" by simp
      from Cons.IH [OF this] show ?thesis
      proof
        assume "(l, m) = (bl, bq) \<and> (\<forall>x\<in>set xs. qual_le (snd x) bq)"
        then show ?thesis using x Some False by (simp add: qual_le_def)
      next
        assume "bq < m \<and> (\<exists>pre post. xs = pre @ (l, Some m) # post
            \<and> (\<forall>x\<in>set pre. qual_less (snd x) m) \<and> (\<forall>x\<in>set post. qual_le (snd x) m))"
        then obtain pre post where lt: "bq < m" and d: "xs = pre @ (l, Some m) # post"
          and p: "\<forall>x\<in>set pre. qual_less (snd x) m" and q: "\<forall>x\<in>set post. qual_le (snd x) m"
          by blast
        have "x # xs = (x # pre) @ (l, Some m) # post" using d by simp
        moreover have "\<forall>y\<in>set (x # pre). qual_less (snd y) m"
          using p x Some lt False by (simp add: qual_less_def)
        ultimately show ?thesis using lt q by blast
      qed
    qed
  qed
qed

lemma idxmax_from_None:
  "idxmax_from None xs = Some (l, m) \<Longrightarrow>
     \<exists>pre post. xs = pre @ (l, Some m) # post
        \<and> (\<forall>x\<in>set pre. qual_less (snd x) m) \<and> (\<forall>x\<in>set post. qual_le (snd x) m)"
proof (induction xs)
  case Nil
  then show ?case by simp
next
  case (Cons x xs)
  obtain xl xq where x: "x = (xl, xq)" by (cases x)
  show ?case
  proof (cases xq)
    case None
    with Cons.prems x have "idxmax_from None xs = Some (l, m)" by simp
    from Cons.IH [OF this] obtain pre post where d: "xs = pre @ (l, Some m) # post"
      and p: "\<forall>x\<in>set pre. qual_less (snd x) m" and q: "\<forall>x\<in>set post. qual_le (snd x) m"
      by blast
    have "x # xs = (x # pre) @ (l, Some m) # post" using d by simp
    moreover have "\<forall>y\<in>set (x # pre). qual_less (snd y) m"
      using p x None by (simp add: qual_less_def)
    ultimately show ?thesis using q by blast
  next
    case (Some v)
    with Cons.prems x have "idxmax_from (Some (xl, v)) xs = Some (l, m)" by simp
    from idxmax_from_Some [OF this] show ?thesis
    proof
      assume a: "(l, m) = (xl, v) \<and> (\<forall>x\<in>set xs. qual_le (snd x) v)"
      then have "x # xs = [] @ (l, Some m) # xs" using x Some by simp
      moreover have "\<forall>y\<in>set xs. qual_le (snd y) m" using a by simp
      ultimately show ?thesis by (metis empty_iff list.set(1))
    next
      assume "v < m \<and> (\<exists>pre post. xs = pre @ (l, Some m) # post
            \<and> (\<forall>x\<in>set pre. qual_less (snd x) m) \<and> (\<forall>x\<in>set post. qual_le (snd x) m))"
      then obtain pre post where lt: "v < m" and d: "xs = pre @ (l, Some m) # post"
        and p: "\<forall>x\<in>set pre. qual_less (snd x) m" and q: "\<forall>x\<in>set post. qual_le (snd x) m"
        by blast
      have "x # xs = (x # pre) @ (l, Some m) # post" using d by simp
      moreover have "\<forall>y\<in>set (x # pre). qual_less (snd y) m"
        using p x Some lt by (simp add: qual_less_def)
      ultimately show ?thesis using q by blast
    qed
  qed
qed

lemma set_quality_values:
  "set (quality_values q g) = {v. \<exists>r\<in>set g. cell_at (snd r) q = Some v}"
  unfolding quality_values_def
  by (induction g) (auto simp: List.map_filter_simps split: option.splits)

lemma find_split:
  "\<forall>x\<in>set pre. \<not> P x \<Longrightarrow> P r \<Longrightarrow> find P (pre @ r # post) = Some r"
  by (induction pre) auto

lemma first_maximum_split:
  assumes g: "g = pre @ r # post"
    and m: "cell_at (snd r) q = Some m"
    and pre: "\<forall>x\<in>set pre. qual_less (cell_at (snd x) q) m"
    and post: "\<forall>x\<in>set post. qual_le (cell_at (snd x) q) m"
  shows "first_maximum q g = Some r"
proof -
  let ?S = "set (quality_values q g)"
  have mem: "m \<in> ?S" using g m by (auto simp: set_quality_values)
  have le: "v \<le> m" if "v \<in> ?S" for v
  proof -
    from that obtain x where x: "x \<in> set g" and v: "cell_at (snd x) q = Some v"
      by (auto simp: set_quality_values)
    from x g consider "x \<in> set pre" | "x = r" | "x \<in> set post" by auto
    then show ?thesis
    proof cases
      case 1
      with pre v show ?thesis by (auto simp: qual_less_def)
    next
      case 2
      with m v show ?thesis by simp
    next
      case 3
      with post v show ?thesis by (auto simp: qual_le_def)
    qed
  qed
  have mx: "Max ?S = m"
    by (rule Max_eqI) (use mem le in auto)
  have "\<forall>x\<in>set pre. cell_at (snd x) q \<noteq> Some m"
    using pre by (auto simp: qual_less_def)
  then have "find (\<lambda>x. cell_at (snd x) q = Some m) (pre @ r # post) = Some r"
    using m by (rule find_split)
  then show ?thesis
    by (simp add: first_maximum_def mx g [symmetric])
qed

lemma map_eq_split:
  "map f g = pre @ y # post \<Longrightarrow>
     \<exists>gpre r gpost. g = gpre @ r # gpost \<and> map f gpre = pre \<and> f r = y \<and> map f gpost = post"
  by (auto simp: map_eq_append_conv map_eq_Cons_conv)

lemma idxmax_first_maximum:
  assumes "idxmax (map (\<lambda>r. (fst r, cell_at (snd r) q)) g) = Some l"
  shows "\<exists>r. first_maximum q g = Some r \<and> fst r = l \<and> r \<in> set g"
proof -
  let ?f = "\<lambda>r. (fst r, cell_at (snd r) q)"
  from assms obtain m where "idxmax_from None (map ?f g) = Some (l, m)"
    by (auto simp: idxmax_def)
  from idxmax_from_None [OF this] obtain pre post where
    d: "map ?f g = pre @ (l, Some m) # post"
    and p: "\<forall>x\<in>set pre. qual_less (snd x) m" and q: "\<forall>x\<in>set post. qual_le (snd x) m"
    by blast
  from map_eq_split [OF d] obtain gpre r gpost where
    g: "g = gpre @ r # gpost" and gp: "map ?f gpre = pre" and r: "?f r = (l, Some m)"
    and gq: "map ?f gpost = post" by blast
  have "\<forall>x\<in>set gpre. qual_less (cell_at (snd x) q) m"
  proof
    fix x assume "x \<in> set gpre"
    then have "?f x \<in> set pre" using gp by force
    with p show "qual_less (cell_at (snd x) q) m" by force
  qed
  moreover have "\<forall>x\<in>set gpost. qual_le (cell_at (snd x) q) m"
  proof
    fix x assume "x \<in> set gpost"
    then have "?f x \<in> set post" using gq by force
    with q show "qual_le (cell_at (snd x) q) m" by force
  qed
  moreover have "cell_at (snd r) q = Some m" using r by simp
  ultimately have "first_maximum q g = Some r" using g by (rule_tac first_maximum_split) auto
  then show ?thesis using r g by auto
qed

lemma loc_rows_subset: "loc_rows rs labels = Inr out \<Longrightarrow> set out \<subseteq> set rs"
proof (induction rs labels arbitrary: out rule: loc_rows.induct)
  case (1 rs)
  then show ?case by simp
next
  case (2 rs ls)
  then show ?case by simp
next
  case (3 rs l ls)
  from "3.prems" obtain hit hits rest where
    f: "filter (\<lambda>r. fst r = l) rs = hit # hits" and
    r: "loc_rows rs ls = Inr rest" and o: "out = (hit # hits) @ rest"
    by (auto split: list.splits sum.splits)
  have "set (hit # hits) \<subseteq> set rs" using f by (metis filter_is_subset)
  moreover have "set rest \<subseteq> set rs" using "3.IH" f r by blast
  ultimately show ?case using o by auto
qed

lemma unique_label:
  "distinct (map fst rs) \<Longrightarrow> r \<in> set rs \<Longrightarrow> filter (\<lambda>x. fst x = fst r) rs = [r]"
proof (induction rs)
  case Nil
  then show ?case by simp
next
  case (Cons a rs)
  show ?case
  proof (cases "r = a")
    case True
    have "filter (\<lambda>x. fst x = fst a) rs = []"
      using Cons.prems(1) by (auto simp: filter_empty_conv image_iff)
    with True show ?thesis by simp
  next
    case False
    with Cons.prems have "r \<in> set rs" "fst a \<noteq> fst r" by (auto simp: image_iff)
    with Cons show ?thesis by simp
  qed
qed

lemma loc_rows_map:
  assumes "distinct (map fst rs)"
    and "\<forall>k\<in>set ks. \<exists>r\<in>set rs. f k = Some (fst r) \<and> sel k = r"
  shows "loc_rows rs (map f ks) = Inr (map sel ks)"
  using assms(2)
proof (induction ks)
  case Nil
  then show ?case by simp
next
  case (Cons k ks)
  from Cons.prems have "\<exists>r\<in>set rs. f k = Some (fst r) \<and> sel k = r" by simp
  then obtain r where r: "r \<in> set rs" "f k = Some (fst r)" "sel k = r" by blast
  have "filter (\<lambda>x. fst x = fst r) rs = [r]" using assms(1) r(1) by (rule unique_label)
  moreover have "loc_rows rs (map f ks) = Inr (map sel ks)" using Cons by simp
  ultimately show ?case using r by simp
qed

lemma loc_rows_labels:
  "loc_rows rs labels = Inr out \<Longrightarrow> l \<in> set labels \<Longrightarrow> \<exists>r\<in>set rs. l = Some (fst r)"
proof (induction rs labels arbitrary: out rule: loc_rows.induct)
  case (1 rs)
  then show ?case by simp
next
  case (2 rs ls)
  then show ?case by simp
next
  case (3 rs l' ls)
  from "3.prems"(1) obtain hit hits rest where
    f: "filter (\<lambda>r. fst r = l') rs = hit # hits" and
    r: "loc_rows rs ls = Inr rest"
    by (auto split: list.splits sum.splits)
  show ?case
  proof (cases "l = Some l'")
    case True
    have "hit \<in> set (filter (\<lambda>r. fst r = l') rs)" using f by simp
    then have "hit \<in> set rs" "fst hit = l'" by auto
    with True show ?thesis by auto
  next
    case False
    with "3.prems"(2) have "l \<in> set ls" by simp
    with "3.IH" f r show ?thesis by blast
  qed
qed

section \<open>The forward-filled frame\<close>

lemma col_index_bound: "col_index name cs = Some i \<Longrightarrow> i < length cs"
  by (induction cs arbitrary: i) (auto split: if_splits)

lemma col_index_append_new:
  "col_index name cs = None \<Longrightarrow> col_index name (cs @ [name]) = Some (length cs)"
  by (induction cs) (auto split: if_splits)

lemma length_ffill_from: "length (ffill_from p xs) = length xs"
  by (induction p xs rule: ffill_from.induct) auto

lemma length_ffill: "length (ffill xs) = length xs"
  by (simp add: ffill_def length_ffill_from)

lemma map_fst_zip_rows:
  "length vals = length rs \<Longrightarrow> map (fst \<circ> (\<lambda>(r, v). (fst r, g r v))) (zip rs vals) = map fst rs"
  by (induction rs vals rule: list_induct2') auto

lemma setitem_index:
  "length vals = length (rows df) \<Longrightarrow> index (setitem name vals df) = index df"
  by (auto simp: setitem_def index_def map_fst_zip_rows split: option.splits)

lemma setitem_col_index:
  "\<exists>b. col_index name (columns (setitem name vals df)) = Some b"
  by (auto simp: setitem_def col_index_append_new split: option.splits)

lemma cells_update:
  "length vals = length rs \<Longrightarrow> list_all (\<lambda>r. i < length (snd r)) rs \<Longrightarrow>
     map ((\<lambda>r. cell_at (snd r) i) \<circ> (\<lambda>(r, v). (fst r, (snd r)[i := v]))) (zip rs vals) = vals"
  by (induction rs vals rule: list_induct2') (auto simp: cell_at_def)

lemma cells_append:
  "length vals = length rs \<Longrightarrow> list_all (\<lambda>r. length (snd r) = n) rs \<Longrightarrow>
     map ((\<lambda>r. cell_at (snd r) n) \<circ> (\<lambda>(r, v). (fst r, snd r @ [v]))) (zip rs vals) = vals"
  by (induction rs vals rule: list_induct2') (auto simp: cell_at_def)

lemma setitem_cells:
  assumes "length vals = length (rows df)"
    and "list_all (\<lambda>r. length (snd r) = length (columns df)) (rows df)"
    and "col_index name (columns (setitem name vals df)) = Some b"
  shows "map (\<lambda>r. cell_at (snd r) b) (rows (setitem name vals df)) = vals"
proof (cases "col_index name (columns df)")
  case None
  then have b: "b = length (columns df)"
    using assms(3) by (simp add: setitem_def col_index_append_new)
  show ?thesis
    using None assms(1,2) by (simp add: setitem_def b cells_append)
next
  case (Some i)
  then have b: "b = i" using assms(3) by (simp add: setitem_def)
  have "i < length (columns df)" using Some by (rule col_index_bound)
  then have "list_all (\<lambda>r. i < length (snd r)) (rows df)"
    using assms(2) by (auto simp: list_all_iff)
  then show ?thesis
    using Some assms(1) by (simp add: setitem_def b cells_update)
qed

lemma forward_filled_unfold:
  assumes "forward_filled col df_raw = Inr df"
  obtains s b where
    "getitem col (dropna_all df_raw) = Inr s"
    "col_index ''compound_id'' (columns (setitem ''compound_id'' (ffill s) (dropna_all df_raw))) = Some b"
    "df = (setitem ''compound_id'' (ffill s) (dropna_all df_raw))
            \<lparr>rows := filter (\<lambda>r. cell_at (snd r) b \<noteq> None)
                       (rows (setitem ''compound_id'' (ffill s) (dropna_all df_raw)))\<rparr>"
  using assms
  by (auto simp: forward_filled_def dropna_subset_def Let_def split: sum.splits option.splits)

lemma getitem_length: "getitem name df = Inr s \<Longrightarrow> length s = length (rows df)"
  by (auto simp: getitem_def split: option.splits)

lemma forward_filled_col_index:
  assumes "forward_filled col df_raw = Inr df"
  shows "\<exists>b. col_index ''compound_id'' (columns df) = Some b"
  using assms by (rule forward_filled_unfold) auto

lemma forward_filled_nonnull:
  assumes "forward_filled col df_raw = Inr df"
    and "col_index ''compound_id'' (columns df) = Some b"
    and "r \<in> set (rows df)"
  shows "cell_at (snd r) b \<noteq> None"
  using assms(1)
proof (rule forward_filled_unfold)
  fix s b'
  assume b': "col_index ''compound_id'' (columns (setitem ''compound_id'' (ffill s) (dropna_all df_raw))) = Some b'"
    and df: "df = (setitem ''compound_id'' (ffill s) (dropna_all df_raw))
            \<lparr>rows := filter (\<lambda>r. cell_at (snd r) b' \<noteq> None)
                       (rows (setitem ''compound_id'' (ffill s) (dropna_all df_raw)))\<rparr>"
  from df b' assms(2) have "b' = b" by simp
  with df assms(3) show ?thesis by auto
qed

lemma forward_filled_index:
  assumes "forward_filled col df_raw = Inr df" and "distinct (index df_raw)"
  shows "distinct (index df)"
  using assms(1)
proof (rule forward_filled_unfold)
  fix s b
  assume s: "getitem col (dropna_all df_raw) = Inr s"
    and df: "df = (setitem ''compound_id'' (ffill s) (dropna_all df_raw))
            \<lparr>rows := filter (\<lambda>r. cell_at (snd r) b \<noteq> None)
                       (rows (setitem ''compound_id'' (ffill s) (dropna_all df_raw)))\<rparr>"
  have "length (ffill s) = length (rows (dropna_all df_raw))"
    using s by (simp add: length_ffill getitem_length)
  then have "index (setitem ''compound_id'' (ffill s) (dropna_all df_raw)) = index (dropna_all df_raw)"
    by (rule setitem_index)
  moreover have "distinct (index (dropna_all df_raw))"
    using assms(2) by (simp add: index_def dropna_all_def distinct_map_filter)
  ultimately have "distinct (index (setitem ''compound_id'' (ffill s) (dropna_all df_raw)))"
    by simp
  then show ?thesis
    unfolding df index_def by (simp add: distinct_map_filter)
qed

lemma forward_filled_cells:
  assumes "forward_filled col df_raw = Inr df"
    and "list_all (\<lambda>r. length (snd r) = length (columns df_raw)) (rows df_raw)"
    and "getitem col (dropna_all df_raw) = Inr s"
    and "col_index ''compound_id'' (columns df) = Some b"
  shows "map (\<lambda>r. cell_at (snd r) b) (rows df) = filter (\<lambda>c. c \<noteq> None) (ffill s)"
  using assms(1)
proof (rule forward_filled_unfold)
  fix s' b'
  let ?d = "dropna_all df_raw"
  assume s': "getitem col ?d = Inr s'"
    and b': "col_index ''compound_id'' (columns (setitem ''compound_id'' (ffill s') ?d)) = Some b'"
    and df: "df = (setitem ''compound_id'' (ffill s') ?d)
            \<lparr>rows := filter (\<lambda>r. cell_at (snd r) b' \<noteq> None)
                       (rows (setitem ''compound_id'' (ffill s') ?d))\<rparr>"
  from s' assms(3) have ss: "s' = s" by simp
  from df b' assms(4) have bb: "b' = b" by simp
  have len: "length (ffill s) = length (rows ?d)"
    using assms(3) by (simp add: length_ffill getitem_length)
  have rect: "list_all (\<lambda>r. length (snd r) = length (columns ?d)) (rows ?d)"
    using assms(2) by (auto simp: dropna_all_def list_all_iff)
  have cells: "map (\<lambda>r. cell_at (snd r) b) (rows (setitem ''compound_id'' (ffill s) ?d)) = ffill s"
    using len rect b' [unfolded ss bb] by (rule setitem_cells)
  have "map (\<lambda>r. cell_at (snd r) b) (rows df)
      = filter (\<lambda>c. c \<noteq> None) (map (\<lambda>r. cell_at (snd r) b) (rows (setitem ''compound_id'' (ffill s) ?d)))"
    unfolding df ss bb by (simp add: filter_map comp_def)
  then show ?thesis by (simp add: cells)
qed

section \<open>The rows the reducer returns\<close>

lemma group_rows_cell: "r \<in> set (group_rows b k df) \<Longrightarrow> cell_at (snd r) b = Some k \<and> r \<in> set (rows df)"
  by (simp add: group_rows_def)

lemma sorted_group_keys: "sorted (group_keys b df)" and distinct_group_keys: "distinct (group_keys b df)"
  by (simp_all add: group_keys_def)

lemma map_snd_zip_upt: "map snd (zip [0 ..< length xs] xs) = xs"
  by (simp add: map_snd_zip)

lemma select_top_unfold:
  assumes "select_top df = Inr res"
    and "col_index ''compound_id'' (columns df) = Some b"
  obtains q hits where
    "col_index ''Quality'' (columns df) = Some q"
    "loc_rows (rows df)
       (map (\<lambda>k. idxmax (map (\<lambda>r. (fst r, cell_at (snd r) q)) (group_rows b k df))) (group_keys b df))
     = Inr hits"
    "columns res = columns df"
    "map snd (rows res) =
       map snd (sort_key (\<lambda>r. the (cell_at (snd r) b)) (filter (\<lambda>r. cell_at (snd r) b \<noteq> None) hits)
                @ filter (\<lambda>r. cell_at (snd r) b = None) hits)"
  using assms
  by (auto simp: select_top_def groupby_idxmax_def loc_def sort_values_def reset_index_def
        map_snd_zip split: sum.splits option.splits)

lemma select_top_rows:
  assumes res: "select_top df = Inr res"
    and dist: "distinct (index df)"
    and b: "col_index ''compound_id'' (columns df) = Some b"
    and q: "col_index ''Quality'' (columns df) = Some q"
  shows "map snd (rows res) =
           map (\<lambda>k. snd (the (first_maximum q (group_rows b k df)))) (group_keys b df)"
    and "\<forall>k\<in>set (group_keys b df).
           \<exists>r\<in>set (group_rows b k df). first_maximum q (group_rows b k df) = Some r"
proof -
  let ?f = "\<lambda>k. idxmax (map (\<lambda>r. (fst r, cell_at (snd r) q)) (group_rows b k df))"
  let ?sel = "\<lambda>k. the (first_maximum q (group_rows b k df))"
  let ?ks = "group_keys b df"
  let ?key = "\<lambda>r. the (cell_at (snd r) b)"
  from res b obtain q' hits where q': "col_index ''Quality'' (columns df) = Some q'"
    and loc': "loc_rows (rows df)
       (map (\<lambda>k. idxmax (map (\<lambda>r. (fst r, cell_at (snd r) q')) (group_rows b k df))) ?ks) = Inr hits"
    and rows: "map snd (rows res) =
       map snd (sort_key ?key (filter (\<lambda>r. cell_at (snd r) b \<noteq> None) hits)
                @ filter (\<lambda>r. cell_at (snd r) b = None) hits)"
    by (rule select_top_unfold)
  from q q' have "q' = q" by simp
  with loc' have loc: "loc_rows (rows df) (map ?f ?ks) = Inr hits" by simp
  have sel: "\<exists>r\<in>set (group_rows b k df). first_maximum q (group_rows b k df) = Some r \<and> ?f k = Some (fst r)"
    if k: "k \<in> set ?ks" for k
  proof -
    from k have "?f k \<in> set (map ?f ?ks)" by simp
    with loc have "\<exists>r0\<in>set (rows df). ?f k = Some (fst r0)" by (rule loc_rows_labels)
    then obtain l where l: "?f k = Some l" by blast
    from idxmax_first_maximum [OF this] show ?thesis using l by auto
  qed
  show main: "\<forall>k\<in>set ?ks. \<exists>r\<in>set (group_rows b k df). first_maximum q (group_rows b k df) = Some r"
    using sel by blast
  have "\<forall>k\<in>set ?ks. \<exists>r\<in>set (rows df). ?f k = Some (fst r) \<and> ?sel k = r"
  proof
    fix k assume "k \<in> set ?ks"
    from sel [OF this] obtain r where r: "r \<in> set (group_rows b k df)"
      "first_maximum q (group_rows b k df) = Some r" "?f k = Some (fst r)" by blast
    then have "r \<in> set (rows df)" by (simp add: group_rows_def)
    with r show "\<exists>r\<in>set (rows df). ?f k = Some (fst r) \<and> ?sel k = r" by auto
  qed
  with dist have "loc_rows (rows df) (map ?f ?ks) = Inr (map ?sel ?ks)"
    unfolding index_def by (rule loc_rows_map)
  with loc have hits: "hits = map ?sel ?ks" by simp
  have cid: "cell_at (snd (?sel k)) b = Some k" if "k \<in> set ?ks" for k
    using sel [OF that] by (auto simp: group_rows_def)
  have nonnull: "filter (\<lambda>r. cell_at (snd r) b \<noteq> None) hits = hits"
    unfolding hits using cid by (auto simp: filter_id_conv)
  have null: "filter (\<lambda>r. cell_at (snd r) b = None) hits = []"
    unfolding hits using cid by (auto simp: filter_empty_conv)
  have "map ?key hits = ?ks"
    unfolding hits using cid by (simp add: map_idI)
  then have "sorted (map ?key hits)" by (simp add: sorted_group_keys)
  then have "sort_key ?key hits = hits" by (rule sort_key_id_if_sorted)
  with rows nonnull null have "map snd (rows res) = map snd hits" by simp
  then show "map snd (rows res) = map (\<lambda>k. snd (?sel k)) ?ks"
    by (simp add: hits)
qed

lemma extract_top_hits_unfold:
  assumes "extract_top_hits df_raw = Inr res"
  obtains col others df b where
    "compound_candidates df_raw = col # others"
    "forward_filled col df_raw = Inr df"
    "col_index ''compound_id'' (columns df) = Some b"
    "select_top df = Inr res"
proof -
  from assms obtain col others where c: "compound_candidates df_raw = col # others"
    and t: "top_hits_of col df_raw = Inr res"
    by (auto simp: extract_top_hits_def split: list.splits)
  from t obtain df where f: "forward_filled col df_raw = Inr df" and s: "select_top df = Inr res"
    by (auto simp: top_hits_of_def split: sum.splits)
  from forward_filled_col_index [OF f] obtain b where b: "col_index ''compound_id'' (columns df) = Some b"
    by blast
  show ?thesis by (rule that [OF c f b s])
qed

lemma filter_eq_single: "distinct ks \<Longrightarrow> k \<in> set ks \<Longrightarrow> filter (\<lambda>k'. k' = k) ks = [k]"
  by (induction ks) (auto simp: filter_empty_conv)

lemma map_filter_values:
  "List.map_filter f xs = List.map_filter (\<lambda>c. c) (filter (\<lambda>c. c \<noteq> None) (map f xs))"
  by (induction xs) (auto simp: List.map_filter_simps split: option.splits)

lemma map_filter_filter_nonnull:
  "List.map_filter (\<lambda>c. c) (filter (\<lambda>c. c \<noteq> None) xs) = List.map_filter (\<lambda>c. c) xs"
  by (induction xs) (auto simp: List.map_filter_simps split: option.splits)

lemma set_map_filter_id: "set (List.map_filter (\<lambda>c. c) xs) = {v. Some v \<in> set xs}"
  by (induction xs) (auto simp: List.map_filter_simps split: option.splits)

text \<open>
  C3. On every well-formed sheet on which the reducer succeeds, the number of rows of its
  output is the number of distinct non-null compound identifiers left after the entirely
  empty rows are dropped and the compound-identifier column is forward-filled.
\<close>

theorem row_count:
  assumes wf: "well_formed df_raw"
    and res: "extract_top_hits df_raw = Inr res"
  shows "length (rows res) = card {k. Some k \<in> set (filled_compound_ids df_raw)}"
  using res
proof (rule extract_top_hits_unfold)
  fix col others df b
  assume c: "compound_candidates df_raw = col # others"
    and f: "forward_filled col df_raw = Inr df"
    and b: "col_index ''compound_id'' (columns df) = Some b"
    and s: "select_top df = Inr res"
  from f obtain ids where g: "getitem col (dropna_all df_raw) = Inr ids"
    by (rule forward_filled_unfold)
  from s b obtain q where q: "col_index ''Quality'' (columns df) = Some q"
    by (rule select_top_unfold)
  have dist: "distinct (index df)"
    using f wf by (auto simp: well_formed_def intro: forward_filled_index)
  have "map snd (rows res) =
          map (\<lambda>k. snd (the (first_maximum q (group_rows b k df)))) (group_keys b df)"
    using s dist b q by (rule select_top_rows(1))
  then have "length (map snd (rows res)) = length (group_keys b df)" by simp
  then have len: "length (rows res) = length (group_keys b df)" by simp
  from wf have rect: "list_all (\<lambda>r. length (snd r) = length (columns df_raw)) (rows df_raw)"
    by (simp add: well_formed_def)
  have cells: "map (\<lambda>r. cell_at (snd r) b) (rows df) = filter (\<lambda>c. c \<noteq> None) (ffill ids)"
    using f rect g b by (rule forward_filled_cells)
  have "List.map_filter (\<lambda>r. cell_at (snd r) b) (rows df) = List.map_filter (\<lambda>c. c) (ffill ids)"
    by (subst map_filter_values) (simp only: cells map_filter_filter_nonnull)
  then have "length (group_keys b df) = length (remdups (List.map_filter (\<lambda>c. c) (ffill ids)))"
    by (simp add: group_keys_def)
  also have "\<dots> = card {k. Some k \<in> set (ffill ids)}"
    by (simp add: length_remdups_card_conv set_map_filter_id)
  finally have "length (group_keys b df) = card {k. Some k \<in> set (ffill ids)}" .
  moreover have "filled_compound_ids df_raw = ffill ids"
    by (simp add: filled_compound_ids_def c g)
  ultimately show ?thesis using len by simp
qed

text \<open>
  C4. For every compound group of the forward-filled table, ties for the greatest quality
  included, the output has exactly one row of that compound, and it is the first row, in
  the table's order, among the rows of the group that hold the group's greatest quality.
  The reducer is a function of its input, so a repeated run selects the same row.
\<close>

theorem first_maximum_selected:
  assumes dist: "distinct (index df_raw)"
    and res: "extract_top_hits df_raw = Inr res"
    and c: "compound_candidates df_raw = col_compound # others"
    and f: "forward_filled col_compound df_raw = Inr df"
    and b: "col_index ''compound_id'' (columns df) = Some b"
    and q: "col_index ''Quality'' (columns df) = Some q"
    and k: "k \<in> set (group_keys b df)"
  shows "\<exists>r. first_maximum q (group_rows b k df) = Some r
           \<and> filter (\<lambda>cells. cell_at cells b = Some k) (map snd (rows res)) = [snd r]"
proof -
  let ?sel = "\<lambda>k. the (first_maximum q (group_rows b k df))"
  let ?ks = "group_keys b df"
  have s: "select_top df = Inr res"
    using res c f by (simp add: extract_top_hits_def top_hits_of_def)
  have d: "distinct (index df)" using f dist by (rule forward_filled_index)
  have rows: "map snd (rows res) = map (\<lambda>k. snd (?sel k)) ?ks"
    using s d b q by (rule select_top_rows(1))
  have sel: "\<forall>k\<in>set ?ks. \<exists>r\<in>set (group_rows b k df). first_maximum q (group_rows b k df) = Some r"
    using s d b q by (rule select_top_rows(2))
  have cid: "cell_at (snd (?sel k')) b = Some k'" if "k' \<in> set ?ks" for k'
    using sel that by (auto simp: group_rows_def)
  have "filter (\<lambda>x. cell_at (snd (?sel x)) b = Some k) ?ks = filter (\<lambda>k'. k' = k) ?ks"
    by (rule filter_cong) (use cid in auto)
  then have "filter (\<lambda>cells. cell_at cells b = Some k) (map (\<lambda>k. snd (?sel k)) ?ks)
      = map (\<lambda>k. snd (?sel k)) (filter (\<lambda>k'. k' = k) ?ks)"
    by (simp add: filter_map comp_def)
  also have "filter (\<lambda>k'. k' = k) ?ks = [k]"
    using distinct_group_keys k by (rule filter_eq_single)
  finally have "filter (\<lambda>cells. cell_at cells b = Some k) (map snd (rows res)) = [snd (?sel k)]"
    by (simp add: rows)
  moreover from sel k obtain r where "first_maximum q (group_rows b k df) = Some r" by blast
  ultimately show ?thesis by auto
qed

lemma top_hits_column:
  assumes f: "forward_filled col df_raw = Inr df"
    and b: "col_index ''compound_id'' (columns df) = Some b"
    and s: "select_top df = Inr res"
  shows "\<exists>ks. getitem ''compound_id'' res = Inr (map Some ks) \<and> sorted ks"
proof -
  let ?key = "\<lambda>r. the (cell_at (snd r) b)"
  from s b obtain q hits where
    loc: "loc_rows (rows df)
       (map (\<lambda>k. idxmax (map (\<lambda>r. (fst r, cell_at (snd r) q)) (group_rows b k df))) (group_keys b df))
     = Inr hits"
    and cols: "columns res = columns df"
    and rows: "map snd (rows res) =
       map snd (sort_key ?key (filter (\<lambda>r. cell_at (snd r) b \<noteq> None) hits)
                @ filter (\<lambda>r. cell_at (snd r) b = None) hits)"
    by (rule select_top_unfold)
  have sub: "set hits \<subseteq> set (rows df)" using loc by (rule loc_rows_subset)
  have nn: "cell_at (snd r) b \<noteq> None" if "r \<in> set hits" for r
  proof -
    from sub that have "r \<in> set (rows df)" by blast
    with f b show ?thesis by (rule forward_filled_nonnull)
  qed
  have "filter (\<lambda>r. cell_at (snd r) b \<noteq> None) hits = hits"
    using nn by (auto simp: filter_id_conv)
  moreover have "filter (\<lambda>r. cell_at (snd r) b = None) hits = []"
    using nn by (auto simp: filter_empty_conv)
  ultimately have r: "map snd (rows res) = map snd (sort_key ?key hits)"
    using rows by simp
  have "map (\<lambda>r. cell_at (snd r) b) (rows res) = map (\<lambda>c. cell_at c b) (map snd (rows res))"
    by (simp add: comp_def)
  also have "\<dots> = map (\<lambda>r. cell_at (snd r) b) (sort_key ?key hits)"
    by (simp add: r comp_def)
  also have "\<dots> = map (\<lambda>r. Some (?key r)) (sort_key ?key hits)"
    by (rule map_cong) (use nn in auto)
  also have "\<dots> = map Some (map ?key (sort_key ?key hits))"
    by (simp add: comp_def)
  finally have "getitem ''compound_id'' res = Inr (map Some (map ?key (sort_key ?key hits)))"
    using b cols by (simp add: getitem_def)
  moreover have "sorted (map ?key (sort_key ?key hits))" by (rule sorted_sort_key)
  ultimately show ?thesis by blast
qed

text \<open>
  C8. Whenever the reducer succeeds, the column \<open>compound_id\<close> of its output has no
  null and is in ascending order.
\<close>

theorem output_ascending:
  assumes "extract_top_hits df_raw = Inr res"
  shows "\<exists>ks. getitem ''compound_id'' res = Inr (map Some ks) \<and> sorted ks"
  using assms
proof (rule extract_top_hits_unfold)
  fix col others df b
  assume "forward_filled col df_raw = Inr df"
    and "col_index ''compound_id'' (columns df) = Some b"
    and "select_top df = Inr res"
  then show ?thesis by (rule top_hits_column)
qed

theorem output_ascending_witness:
  "extract_top_hits tie_sheet =
     Inr \<lparr>columns = [''Compound'', ''Quality'', ''compound_id''],
          rows = [(0, [Some 3, Some 60, Some 3]), (1, [None, Some 95, Some 7])]\<rparr>
   \<and> (\<exists>ks. getitem ''compound_id''
              \<lparr>columns = [''Compound'', ''Quality'', ''compound_id''],
               rows = [(0, [Some 3, Some 60, Some 3]), (1, [None, Some 95, Some (7::int)])]\<rparr>
            = Inr (map Some ks) \<and> sorted ks)"
proof -
  have h: "extract_top_hits tie_sheet =
     Inr \<lparr>columns = [''Compound'', ''Quality'', ''compound_id''],
          rows = [(0, [Some 3, Some 60, Some 3]), (1, [None, Some 95, Some 7])]\<rparr>"
    by (simp add: tie_sheet_def frame_defs upt_rec)
  from output_ascending [OF h] h show ?thesis by blast
qed

theorem row_count_witness:
  "well_formed gap_sheet
   \<and> extract_top_hits gap_sheet =
       Inr \<lparr>columns = [''Compound number (#)'', ''Hit Name'', ''Quality'', ''compound_id''],
            rows = [(0, [Some 2, None, Some 30, Some 2]), (1, [None, Some 12, Some 70, Some 4])]\<rparr>
   \<and> filled_compound_ids gap_sheet = [None, Some 4, Some 4, Some 2, Some 4]
   \<and> card {k. Some k \<in> set (filled_compound_ids gap_sheet)} = 2"
proof -
  have wf: "well_formed gap_sheet"
    by (simp add: well_formed_def gap_sheet_def index_def)
  have h: "extract_top_hits gap_sheet =
       Inr \<lparr>columns = [''Compound number (#)'', ''Hit Name'', ''Quality'', ''compound_id''],
            rows = [(0, [Some 2, None, Some 30, Some 2]), (1, [None, Some 12, Some 70, Some 4])]\<rparr>"
    by (simp add: gap_sheet_def frame_defs upt_rec)
  have ids: "filled_compound_ids gap_sheet = [None, Some 4, Some 4, Some 2, Some 4]"
    by (simp add: filled_compound_ids_def gap_sheet_def frame_defs)
  from row_count [OF wf h] wf h ids show ?thesis by simp
qed

theorem first_maximum_selected_witness:
  "distinct (index tie_sheet)
   \<and> extract_top_hits tie_sheet =
       Inr \<lparr>columns = [''Compound'', ''Quality'', ''compound_id''],
            rows = [(0, [Some 3, Some 60, Some 3]), (1, [None, Some 95, Some 7])]\<rparr>
   \<and> compound_candidates tie_sheet = [''Compound'']
   \<and> forward_filled ''Compound'' tie_sheet =
       Inr \<lparr>columns = [''Compound'', ''Quality'', ''compound_id''],
            rows = [(0, [Some 7, Some 90, Some 7]), (1, [None, Some 95, Some 7]),
                    (2, [None, Some 95, Some 7]), (3, [Some 3, Some 60, Some 3])]\<rparr>
   \<and> first_maximum 1
        [(0, [Some 7, Some 90, Some 7]), (1, [None, Some 95, Some 7]),
         (2, [None, Some 95, Some (7::int)])] = Some (1, [None, Some 95, Some 7])
   \<and> filter (\<lambda>cells. cell_at cells 2 = Some 7)
        [[Some 3, Some 60, Some 3], [None, Some 95, Some (7::int)]] = [[None, Some 95, Some 7]]"
proof -
  let ?df = "\<lparr>columns = [''Compound'', ''Quality'', ''compound_id''],
            rows = [(0, [Some 7, Some 90, Some 7]), (1, [None, Some 95, Some 7]),
                    (2, [None, Some 95, Some 7]), (3, [Some 3, Some 60, Some (3::int)])]\<rparr>"
  let ?res = "\<lparr>columns = [''Compound'', ''Quality'', ''compound_id''],
            rows = [(0, [Some 3, Some 60, Some 3]), (1, [None, Some 95, Some (7::int)])]\<rparr>"
  have d: "distinct (index tie_sheet)" by (simp add: tie_sheet_def index_def)
  have h: "extract_top_hits tie_sheet = Inr ?res"
    by (simp add: tie_sheet_def frame_defs upt_rec)
  have c: "compound_candidates tie_sheet = ''Compound'' # []"
    by (simp add: tie_sheet_def frame_defs)
  have f: "forward_filled ''Compound'' tie_sheet = Inr ?df"
    by (simp add: tie_sheet_def frame_defs)
  have b: "col_index ''compound_id'' (columns ?df) = Some 2" by simp
  have q: "col_index ''Quality'' (columns ?df) = Some 1" by simp
  have k: "7 \<in> set (group_keys 2 ?df)" by (simp add: frame_defs)
  have g: "group_rows 2 7 ?df = [(0, [Some 7, Some 90, Some 7]), (1, [None, Some 95, Some 7]),
         (2, [None, Some 95, Some 7])]" by (simp add: frame_defs)
  from first_maximum_selected [OF d h c f b q k] d h c f show ?thesis
    by (simp add: g first_maximum_def quality_values_def List.map_filter_def cell_at_def)
qed

section \<open>The choice of the compound column\<close>

lemma loc_rows_error: "loc_rows rs labels = Inl e \<Longrightarrow> e = KeyError NotInIndex"
  by (induction rs labels rule: loc_rows.induct) (auto split: list.splits sum.splits)

lemma select_top_error:
  "select_top df = Inl e \<Longrightarrow> e = KeyError NotInIndex \<or> (\<exists>name. e = KeyError (ColumnNotFound name))"
  by (auto simp: select_top_def groupby_idxmax_def loc_def sort_values_def
      split: sum.splits option.splits dest: loc_rows_error)

lemma forward_filled_error:
  "forward_filled col df = Inl e \<Longrightarrow> \<exists>name. e = KeyError (ColumnNotFound name)"
  by (auto simp: forward_filled_def getitem_def dropna_subset_def Let_def
      split: sum.splits option.splits)

lemma top_hits_of_error:
  "top_hits_of col df \<noteq> Inl (KeyError (NoCompoundColumn cols))"
proof
  assume a: "top_hits_of col df = Inl (KeyError (NoCompoundColumn cols))"
  show False
  proof (cases "forward_filled col df")
    case (Inl e)
    with a have "e = KeyError (NoCompoundColumn cols)" by (simp add: top_hits_of_def)
    with forward_filled_error [OF Inl] show False by auto
  next
    case (Inr d)
    with a have "select_top d = Inl (KeyError (NoCompoundColumn cols))"
      by (simp add: top_hits_of_def)
    from select_top_error [OF this] show False by auto
  qed
qed

text \<open>
  C6. The reducer fails with the error that no compound column was found, reporting all
  the column names of the sheet, exactly when no column name contains \<open>compound\<close> in
  any case of letters; otherwise the first such column in declared order is the one the
  reduction runs on.
\<close>

theorem compound_column_choice:
  "(extract_top_hits df = Inl (KeyError (NoCompoundColumn cols))
      \<longleftrightarrow> cols = columns df \<and> (\<forall>c\<in>set (columns df). \<not> contains (lower c) ''compound''))
   \<and> (columns df = pre @ c # post \<and> contains (lower c) ''compound''
        \<and> (\<forall>c'\<in>set pre. \<not> contains (lower c') ''compound'')
      \<longrightarrow> extract_top_hits df = top_hits_of c df)"
proof (intro conjI impI)
  show "extract_top_hits df = Inl (KeyError (NoCompoundColumn cols))
      \<longleftrightarrow> cols = columns df \<and> (\<forall>c\<in>set (columns df). \<not> contains (lower c) ''compound'')"
  proof (cases "compound_candidates df")
    case Nil
    then have "\<forall>c\<in>set (columns df). \<not> contains (lower c) ''compound''"
      by (simp add: compound_candidates_def filter_empty_conv)
    with Nil show ?thesis by (auto simp: extract_top_hits_def)
  next
    case (Cons col others)
    then have "col \<in> set (compound_candidates df)" by simp
    then have "\<exists>c\<in>set (columns df). contains (lower c) ''compound''"
      by (auto simp: compound_candidates_def)
    with Cons show ?thesis by (auto simp: extract_top_hits_def top_hits_of_error)
  qed
next
  assume a: "columns df = pre @ c # post \<and> contains (lower c) ''compound''
        \<and> (\<forall>c'\<in>set pre. \<not> contains (lower c') ''compound'')"
  then have "filter (\<lambda>c. contains (lower c) ''compound'') pre = []"
    by (simp add: filter_empty_conv)
  with a have "compound_candidates df = c # filter (\<lambda>c. contains (lower c) ''compound'') post"
    by (simp add: compound_candidates_def)
  then show "extract_top_hits df = top_hits_of c df"
    by (simp add: extract_top_hits_def)
qed

theorem compound_column_choice_witness:
  "extract_top_hits no_candidate = Inl (KeyError (NoCompoundColumn [''RT (min)'', ''Quality'']))
   \<and> extract_top_hits two_candidates = top_hits_of ''COMPOUND number (#)'' two_candidates
   \<and> extract_top_hits two_candidates =
       Inr \<lparr>columns = [''RT (min)'', ''COMPOUND number (#)'', ''Quality'', ''Compound'', ''compound_id''],
            rows = [(0, [Some 6, None, Some 95, Some 8, Some 1])]\<rparr>"
proof -
  have n: "[''RT (min)'', ''Quality''] = columns no_candidate
      \<and> (\<forall>c\<in>set (columns no_candidate). \<not> contains (lower c) ''compound'')"
    by (simp add: no_candidate_def lower_def lower_char_def is_upper_def)
  have t: "columns two_candidates = [''RT (min)''] @ ''COMPOUND number (#)'' # [''Quality'', ''Compound'']
      \<and> contains (lower ''COMPOUND number (#)'') ''compound''
      \<and> (\<forall>c'\<in>set [''RT (min)'']. \<not> contains (lower c') ''compound'')"
    by (simp add: two_candidates_def lower_def lower_char_def is_upper_def)
  have e: "top_hits_of ''COMPOUND number (#)'' two_candidates =
       Inr \<lparr>columns = [''RT (min)'', ''COMPOUND number (#)'', ''Quality'', ''Compound'', ''compound_id''],
            rows = [(0, [Some 6, None, Some 95, Some 8, Some 1])]\<rparr>"
    by (simp add: two_candidates_def frame_defs upt_rec)
  from compound_column_choice [of no_candidate "[''RT (min)'', ''Quality'']"] n
    compound_column_choice [of two_candidates _ "[''RT (min)'']" "''COMPOUND number (#)''" "[''Quality'', ''Compound'']"] t e
  show ?thesis by simp
qed

section \<open>The choice of the sheet\<close>

lemma find_libres_None: "find_libres ss = None \<longleftrightarrow> (\<forall>s\<in>set ss. lower s \<noteq> ''libres'')"
  by (induction ss) auto

lemma find_libres_first:
  "lower s = ''libres'' \<Longrightarrow> \<forall>s'\<in>set pre. lower s' \<noteq> ''libres'' \<Longrightarrow>
     find_libres (pre @ s # post) = Some s"
  by (induction pre) auto

text \<open>
  C5, amended. For a workbook that opens, the sheet extractor fails with the error that
  no LibRes sheet was found, reporting the workbook's sheet names, exactly when no sheet
  name is \<open>libres\<close> once lower-cased; otherwise it reads the first such sheet in the
  reader's order, with header row 8, and returns what the reader returns: the parsed
  sheet, or the reader's own error.
\<close>

theorem libres_sheet_choice:
  assumes "ExcelFile pd file_obj (if endswith (lower filename) ''.xls'' then Some ''xlrd'' else None)
             = Inr xls"
  shows "(load_libres_sheet pd file_obj filename = Inl (ValueError (NoLibResSheet names))
            \<longleftrightarrow> names = sheet_names pd xls \<and> (\<forall>s\<in>set (sheet_names pd xls). lower s \<noteq> ''libres''))
       \<and> (sheet_names pd xls = pre @ s # post \<and> lower s = ''libres''
            \<and> (\<forall>s'\<in>set pre. lower s' \<noteq> ''libres'')
          \<longrightarrow> load_libres_sheet pd file_obj filename =
                (case read_excel pd xls s 8 of Inl m \<Rightarrow> Inl (ReaderError m) | Inr df_raw \<Rightarrow> Inr df_raw))"
proof (intro conjI impI)
  show "load_libres_sheet pd file_obj filename = Inl (ValueError (NoLibResSheet names))
            \<longleftrightarrow> names = sheet_names pd xls \<and> (\<forall>s\<in>set (sheet_names pd xls). lower s \<noteq> ''libres'')"
  proof (cases "find_libres (sheet_names pd xls)")
    case None
    then have "\<forall>s\<in>set (sheet_names pd xls). lower s \<noteq> ''libres''"
      by (simp add: find_libres_None)
    with None assms show ?thesis by (auto simp: load_libres_sheet_def Let_def)
  next
    case (Some name)
    then have "\<not> (\<forall>s\<in>set (sheet_names pd xls). lower s \<noteq> ''libres'')"
      using find_libres_None [of "sheet_names pd xls"] by simp
    with Some assms show ?thesis
      by (auto simp: load_libres_sheet_def Let_def split: sum.splits)
  qed
next
  assume a: "sheet_names pd xls = pre @ s # post \<and> lower s = ''libres''
            \<and> (\<forall>s'\<in>set pre. lower s' \<noteq> ''libres'')"
  then have "find_libres (sheet_names pd xls) = Some s"
    by (simp add: find_libres_first)
  with assms show "load_libres_sheet pd file_obj filename =
                (case read_excel pd xls s 8 of Inl m \<Rightarrow> Inl (ReaderError m) | Inr df_raw \<Rightarrow> Inr df_raw)"
    by (simp add: load_libres_sheet_def Let_def)
qed

theorem libres_sheet_choice_witness:
  "load_libres_sheet memory_pandas [(''IntRes'', no_candidate), (''QRes'', tie_sheet)] ''a.xls''
     = Inl (ValueError (NoLibResSheet [''IntRes'', ''QRes'']))
   \<and> load_libres_sheet memory_pandas
       [(''IntRes'', no_candidate), (''LIBRES'', tie_sheet), (''LibRes'', gap_sheet)] ''a.xlsx''
     = Inr tie_sheet"
proof -
  let ?w1 = "[(''IntRes'', no_candidate), (''QRes'', tie_sheet)]"
  let ?w2 = "[(''IntRes'', no_candidate), (''LIBRES'', tie_sheet), (''LibRes'', gap_sheet)]"
  have o1: "ExcelFile memory_pandas ?w1 (if endswith (lower ''a.xls'') ''.xls'' then Some ''xlrd'' else None)
      = Inr ?w1" by (simp add: memory_pandas_def)
  have o2: "ExcelFile memory_pandas ?w2 (if endswith (lower ''a.xlsx'') ''.xls'' then Some ''xlrd'' else None)
      = Inr ?w2" by (simp add: memory_pandas_def)
  have n1: "[''IntRes'', ''QRes''] = sheet_names memory_pandas ?w1
      \<and> (\<forall>s\<in>set (sheet_names memory_pandas ?w1). lower s \<noteq> ''libres'')"
    by (simp add: memory_pandas_def lower_def lower_char_def is_upper_def)
  have n2: "sheet_names memory_pandas ?w2 = [''IntRes''] @ ''LIBRES'' # [''LibRes'']
      \<and> lower ''LIBRES'' = ''libres'' \<and> (\<forall>s'\<in>set [''IntRes'']. lower s' \<noteq> ''libres'')"
    by (simp add: memory_pandas_def lower_def lower_char_def is_upper_def)
  have r2: "read_excel memory_pandas ?w2 ''LIBRES'' 8 = Inr tie_sheet"
    by (simp add: memory_pandas_def)
  from libres_sheet_choice [OF o1, of "[''IntRes'', ''QRes'']"] n1
    libres_sheet_choice [OF o2, of _ "[''IntRes'']" "''LIBRES''" "[''LibRes'']"] n2 r2
  show ?thesis by simp
qed

section \<open>The cleaned table\<close>







lemma cell_at_map: "cell_at (map g r) i = (if i < length r then g (r ! i) else None)"
  by (simp add: cell_at_def)






section \<open>The parser and the patterns of the name\<close>

lemma is_digit_lower_char: "is_digit (lower_char c) = is_digit c"
proof -
  obtain b0 b1 b2 b3 b4 b5 b6 b7 where c: "c = Char b0 b1 b2 b3 b4 b5 b6 b7" by (cases c)
  show ?thesis
    unfolding c
    by (cases b0; cases b1; cases b2; cases b3; cases b4; cases b5; cases b6; cases b7;
        simp add: lower_char_def is_upper_def is_digit_def)
qed



lemma search_time_no_break_space:
  "search_time (lower [CHR ''2'', CHR ''4'', CHR 0xA0, CHR ''H'']) = Some ''24''"
  by (simp add: parser_defs)




















section \<open>A sheet the reader refuses\<close>

text \<open>
  C5, as the specification states it, fails: a workbook can have a sheet named
  \<open>LibRes\<close> and the extractor still end in an error, the one the reader raises on that
  sheet.
\<close>

theorem libres_sheet_choice_counterexample:
  "sheet_names checking_pandas
       [(''IntRes'', Inr no_candidate),
        (''LibRes'', Inl ''Passed header=[8], len of 1, but only 3 lines in file (sheet: LibRes)'')]
     = [''IntRes'', ''LibRes'']
   \<and> lower ''LibRes'' = ''libres''
   \<and> load_libres_sheet checking_pandas
       [(''IntRes'', Inr no_candidate),
        (''LibRes'', Inl ''Passed header=[8], len of 1, but only 3 lines in file (sheet: LibRes)'')]
       ''Healthy_24h-char-1.xlsx''
     = Inl (ReaderError ''Passed header=[8], len of 1, but only 3 lines in file (sheet: LibRes)'')"
  by (simp add: load_libres_sheet_def checking_pandas_def lower_def lower_char_def is_upper_def)

end
